theory Spec2Isabelle
  imports Main "HOL-Library.Word" "HOL-Library.Sublist"
begin

section \<open>JavaScript strings and values\<close>

text \<open>
  A JavaScript string is a sequence of UTF-16 code units. \<open>ascii\<close> embeds an ASCII
  literal, one code unit per character.
\<close>

type_synonym code_unit = "16 word"
type_synonym jsstring = "code_unit list"

definition ascii :: "string \<Rightarrow> jsstring" where
  "ascii s = map of_char s"

abbreviation slash :: code_unit where "slash \<equiv> 0x2F"
abbreviation backslash :: code_unit where "backslash \<equiv> 0x5C"
abbreviation lbrace :: code_unit where "lbrace \<equiv> 0x7B"
abbreviation rbrace :: code_unit where "rbrace \<equiv> 0x7D"
abbreviation dollar :: code_unit where "dollar \<equiv> 0x24"
abbreviation percent :: code_unit where "percent \<equiv> 0x25"
abbreviation ampersand :: code_unit where "ampersand \<equiv> 0x26"
abbreviation comma :: code_unit where "comma \<equiv> 0x2C"
abbreviation equals :: code_unit where "equals \<equiv> 0x3D"
abbreviation question :: code_unit where "question \<equiv> 0x3F"
abbreviation caret :: code_unit where "caret \<equiv> 0x5E"
abbreviation dot :: code_unit where "dot \<equiv> 0x2E"
abbreviation bar :: code_unit where "bar \<equiv> 0x7C"

text \<open>
  The values a descriptor can hold are data: \<open>undefined\<close>, \<open>null\<close>, booleans,
  numbers, strings, arrays, and plain objects (prototype \<open>Object.prototype\<close>) given by
  their own properties in the order of \<open>Object.entries\<close>. Numbers are the values of the
  type parameter \<open>'n\<close>, so that every Number, \<open>NaN\<close> and the infinities included,
  is covered; how the host prints a number (\<open>Number::toString\<close>) is a parameter
  \<open>num\<close> of everything that prints values.
\<close>

datatype 'n jsval =
    JUndefined
  | JNull
  | JBool bool
  | JNum 'n
  | JStr jsstring
  | JArr "'n jsval list"
  | JObj "(jsstring \<times> 'n jsval) list"

datatype error = TypeError | URIError | SyntaxError

text \<open>
  The results of a loop whose body may throw: the values of all rounds, or the first
  exception.
\<close>

fun collect :: "(error + 'a) list \<Rightarrow> error + 'a list" where
  "collect [] = Inr []"
| "collect (x # xs) =
     (case x of
        Inl e \<Rightarrow> Inl e
      | Inr a \<Rightarrow> (case collect xs of Inl e \<Rightarrow> Inl e | Inr rest \<Rightarrow> Inr (a # rest)))"

text \<open>\<open>Array.prototype.join\<close> on an array of strings.\<close>

fun join :: "jsstring \<Rightarrow> jsstring list \<Rightarrow> jsstring" where
  "join sep [] = []"
| "join sep [x] = x"
| "join sep (x # y # ys) = x @ sep @ join sep (y # ys)"

text \<open>
  The abstract operation \<open>ToString\<close>, as a template literal \<open>`${v}`\<close> and
  \<open>encodeURIComponent(v)\<close> apply it. An array joins the texts of its elements with a
  comma, \<open>undefined\<close> and \<open>null\<close> elements printed as the empty string. A plain object
  prints through \<open>Object.prototype.toString\<close>, unless it has an own property
  \<open>toString\<close>: a data property is not callable, \<open>valueOf\<close> yields no primitive, and
  the conversion throws \<open>TypeError\<close>.
\<close>

fun ToString :: "('n \<Rightarrow> jsstring) \<Rightarrow> 'n jsval \<Rightarrow> error + jsstring" where
  "ToString num JUndefined = Inr (ascii ''undefined'')"
| "ToString num JNull = Inr (ascii ''null'')"
| "ToString num (JBool b) = Inr (if b then ascii ''true'' else ascii ''false'')"
| "ToString num (JNum n) = Inr (num n)"
| "ToString num (JStr s) = Inr s"
| "ToString num (JArr xs) =
     (case collect (map (\<lambda>x. if x = JUndefined \<or> x = JNull then Inr [] else ToString num x) xs) of
        Inl e \<Rightarrow> Inl e
      | Inr texts \<Rightarrow> Inr (join [comma] texts))"
| "ToString num (JObj kvs) =
     (if ascii ''toString'' \<in> set (map fst kvs) then Inl TypeError
      else Inr (ascii ''[object Object]''))"

section \<open>encodeURIComponent\<close>

definition uriUnreserved :: "code_unit \<Rightarrow> bool" where
  "uriUnreserved c \<longleftrightarrow>
     (0x41 \<le> c \<and> c \<le> 0x5A) \<or> (0x61 \<le> c \<and> c \<le> 0x7A) \<or> (0x30 \<le> c \<and> c \<le> 0x39)
     \<or> c \<in> {0x2D, 0x5F, 0x2E, 0x21, 0x7E, 0x2A, 0x27, 0x28, 0x29}"

definition is_lead :: "code_unit \<Rightarrow> bool" where
  "is_lead c \<longleftrightarrow> 0xD800 \<le> c \<and> c \<le> 0xDBFF"

definition is_trail :: "code_unit \<Rightarrow> bool" where
  "is_trail c \<longleftrightarrow> 0xDC00 \<le> c \<and> c \<le> 0xDFFF"

definition hexdigit :: "nat \<Rightarrow> code_unit" where
  "hexdigit d = (if d < 10 then 0x30 + of_nat d else 0x37 + of_nat d)"

definition percent_octet :: "nat \<Rightarrow> jsstring" where
  "percent_octet b = [percent, hexdigit (b div 16), hexdigit (b mod 16)]"

text \<open>The UTF-8 octets of a code point.\<close>

definition utf8 :: "nat \<Rightarrow> nat list" where
  "utf8 n =
     (if n < 0x80 then [n]
      else if n < 0x800 then [0xC0 + n div 64, 0x80 + n mod 64]
      else if n < 0x10000 then [0xE0 + n div 4096, 0x80 + (n div 64) mod 64, 0x80 + n mod 64]
      else [0xF0 + n div 262144, 0x80 + (n div 4096) mod 64, 0x80 + (n div 64) mod 64,
            0x80 + n mod 64])"

definition percent_code_point :: "nat \<Rightarrow> jsstring" where
  "percent_code_point n = concat (map percent_octet (utf8 n))"

definition surrogate_pair :: "code_unit \<Rightarrow> code_unit \<Rightarrow> nat" where
  "surrogate_pair c d = (unat c - 0xD800) * 0x400 + (unat d - 0xDC00) + 0x10000"

text \<open>
  ECMAScript \<open>Encode\<close> with the unreserved set of \<open>encodeURIComponent\<close>: an unreserved
  code unit is copied, any other code point is written as the percent-escaped octets of
  its UTF-8 form, and an unpaired surrogate throws \<open>URIError\<close>.
\<close>

fun Encode :: "jsstring \<Rightarrow> error + jsstring" where
  "Encode [] = Inr []"
| "Encode (c # cs) =
     (if uriUnreserved c then
        (case Encode cs of Inl e \<Rightarrow> Inl e | Inr r \<Rightarrow> Inr (c # r))
      else if is_trail c then Inl URIError
      else if is_lead c then
        (case cs of
           [] \<Rightarrow> Inl URIError
         | d # ds \<Rightarrow>
             if is_trail d then
               (case Encode ds of
                  Inl e \<Rightarrow> Inl e
                | Inr r \<Rightarrow> Inr (percent_code_point (surrogate_pair c d) @ r))
             else Inl URIError)
      else
        (case Encode cs of
           Inl e \<Rightarrow> Inl e
         | Inr r \<Rightarrow> Inr (percent_code_point (unat c) @ r)))"

definition encodeURIComponent :: "('n \<Rightarrow> jsstring) \<Rightarrow> 'n jsval \<Rightarrow> error + jsstring" where
  "encodeURIComponent num v = (case ToString num v of Inl e \<Rightarrow> Inl e | Inr s \<Rightarrow> Encode s)"

section \<open>String.prototype.replace with a string pattern\<close>

text \<open>
  \<open>GetSubstitution\<close> for a string pattern (no captures): in the replacement text
  \<open>$$\<close> is a dollar sign, \<open>$&\<close> the matched text, \<open>$`\<close> the text before the match
  and \<open>$'\<close> the text after it; any other dollar sign stands for itself.
\<close>

fun GetSubstitution :: "jsstring \<Rightarrow> jsstring \<Rightarrow> jsstring \<Rightarrow> jsstring \<Rightarrow> jsstring" where
  "GetSubstitution m pre post [] = []"
| "GetSubstitution m pre post [c] = [c]"
| "GetSubstitution m pre post (c # d # r) =
     (if c = dollar \<and> d = dollar then dollar # GetSubstitution m pre post r
      else if c = dollar \<and> d = ampersand then m @ GetSubstitution m pre post r
      else if c = dollar \<and> d = 0x60 then pre @ GetSubstitution m pre post r
      else if c = dollar \<and> d = 0x27 then post @ GetSubstitution m pre post r
      else c # GetSubstitution m pre post (d # r))"

text \<open>The text before and after the first occurrence of a pattern, if it occurs.\<close>

fun split_first :: "jsstring \<Rightarrow> jsstring \<Rightarrow> (jsstring \<times> jsstring) option" where
  "split_first pat [] = (if pat = [] then Some ([], []) else None)"
| "split_first pat (c # cs) =
     (if prefix pat (c # cs) then Some ([], drop (length pat) (c # cs))
      else (case split_first pat cs of
              None \<Rightarrow> None
            | Some (pre, post) \<Rightarrow> Some (c # pre, post)))"

text \<open>\<open>s.replace(pat, repl)\<close>: only the first occurrence is replaced.\<close>

definition replace :: "jsstring \<Rightarrow> jsstring \<Rightarrow> jsstring \<Rightarrow> jsstring" where
  "replace pat repl s =
     (case split_first pat s of
        None \<Rightarrow> s
      | Some (pre, post) \<Rightarrow> pre @ GetSubstitution pat pre post repl @ post)"

text \<open>\<open>path.replaceAll("/", "\\/")\<close>: every forward slash gets a backslash before it.\<close>

definition escape_slashes :: "jsstring \<Rightarrow> jsstring" where
  "escape_slashes p = concat (map (\<lambda>c. if c = slash then [backslash, slash] else [c]) p)"

section \<open>The mock registrar\<close>

text \<open>
  An object used as a mapping is the list of its entries in the order of
  \<open>Object.entries\<close>. An optional field that is not set is \<open>None\<close>.
\<close>

type_synonym 'n entries = "(jsstring \<times> 'n jsval) list"

record 'n descriptor =
  path :: jsstring
  status :: "'n jsval option"
  "method" :: "jsstring option"
  json :: "'n jsval option"
  query :: "'n entries option"
  pathParam :: "'n entries option"

record env =
  BASE_URL :: "jsstring option"

text \<open>The placeholder token \<open>`{${k}}`\<close>.\<close>

definition token :: "jsstring \<Rightarrow> jsstring" where
  "token k = lbrace # k @ [rbrace]"

text \<open>
  The \<open>reduce\<close> over the entries of \<open>pathParam\<close>; \<open>encodeURIComponent\<close> is evaluated
  for every entry, whether or not its token occurs, and its exception ends the loop.
\<close>

fun reduce_pathParam :: "('n \<Rightarrow> jsstring) \<Rightarrow> 'n entries \<Rightarrow> jsstring \<Rightarrow> error + jsstring" where
  "reduce_pathParam num [] acc = Inr acc"
| "reduce_pathParam num ((k, v) # es) acc =
     (case encodeURIComponent num v of
        Inl e \<Rightarrow> Inl e
      | Inr r \<Rightarrow> reduce_pathParam num es (replace (token k) r acc))"

text \<open>\<open>Object.entries(pathParam || [])\<close>.\<close>

definition path_entries :: "'n descriptor \<Rightarrow> 'n entries" where
  "path_entries d = (case pathParam d of None \<Rightarrow> [] | Some es \<Rightarrow> es)"

definition pathString :: "('n \<Rightarrow> jsstring) \<Rightarrow> 'n descriptor \<Rightarrow> error + jsstring" where
  "pathString num d = reduce_pathParam num (path_entries d) (escape_slashes (path d))"

text \<open>
  \<open>mkQParams\<close>: the entries are printed in order as \<open>`${param}=${value}`\<close>, the first
  value that cannot be printed throws, and the texts are joined with \<open>&\<close>.
\<close>

definition mkQParams :: "('n \<Rightarrow> jsstring) \<Rightarrow> 'n entries \<Rightarrow> error + jsstring" where
  "mkQParams num q =
     (case collect (map (\<lambda>(param, v). case ToString num v of
                                        Inl e \<Rightarrow> Inl e
                                      | Inr s \<Rightarrow> Inr (param @ [equals] @ s)) q) of
        Inl e \<Rightarrow> Inl e
      | Inr pairs \<Rightarrow> Inr (join [ampersand] pairs))"

text \<open>\<open>`${process.env.BASE_URL}`\<close>: an unset variable prints as \<open>undefined\<close>.\<close>

definition base_url :: "env \<Rightarrow> jsstring" where
  "base_url e = (case BASE_URL e of None \<Rightarrow> ascii ''undefined'' | Some b \<Rightarrow> b)"

text \<open>
  The text given to \<open>new RegExp\<close>; the path part is built first, the query part while
  the template literal is evaluated.
\<close>

definition matcher_source :: "('n \<Rightarrow> jsstring) \<Rightarrow> env \<Rightarrow> 'n descriptor \<Rightarrow> error + jsstring" where
  "matcher_source num e d =
     (case pathString num d of
        Inl err \<Rightarrow> Inl err
      | Inr ps \<Rightarrow>
          (case query d of
             None \<Rightarrow> Inr ([caret] @ base_url e @ ps @ [dollar])
           | Some q \<Rightarrow>
               (case mkQParams num q of
                  Inl err \<Rightarrow> Inl err
                | Inr qs \<Rightarrow>
                    Inr ([caret] @ base_url e @ ps @ [backslash, question] @ qs @ [dollar]))))"

text \<open>
  A regular expression without flags is its pattern text. Whether the host accepts a
  pattern is the parameter \<open>pattern_ok\<close>; a rejected pattern throws \<open>SyntaxError\<close>.
\<close>

datatype regexp = RegExp jsstring

definition new_RegExp :: "(jsstring \<Rightarrow> bool) \<Rightarrow> jsstring \<Rightarrow> error + regexp" where
  "new_RegExp pattern_ok src = (if pattern_ok src then Inr (RegExp src) else Inl SyntaxError)"

text \<open>The options object given to \<open>route.fulfill\<close>, and the call itself.\<close>

record 'n fulfill_options =
  fulfill_path :: jsstring
  fulfill_json :: "'n jsval option"
  fulfill_status :: "'n jsval option"

datatype ('n, 'r) fulfill_call = Fulfill 'r "'n fulfill_options"

definition fulfill_args :: "'n descriptor \<Rightarrow> 'n fulfill_options" where
  "fulfill_args d =
     \<lparr> fulfill_path = path d,
       fulfill_json = json d,
       fulfill_status = (case status d of Some (JNum n) \<Rightarrow> Some (JNum n) | _ \<Rightarrow> None) \<rparr>"

definition handler :: "'n descriptor \<Rightarrow> 'r \<Rightarrow> ('n, 'r) fulfill_call" where
  "handler d route = Fulfill route (fulfill_args d)"

text \<open>
  The outcome of \<open>MockApi\<close>: an exception thrown while the arguments are built, or the
  call \<open>page.route(matcher, handler)\<close> whose promise it returns.
\<close>

datatype ('n, 'p, 'r) route_call = PageRoute 'p regexp "'r \<Rightarrow> ('n, 'r) fulfill_call"

definition MockApi ::
  "('n \<Rightarrow> jsstring) \<Rightarrow> (jsstring \<Rightarrow> bool) \<Rightarrow> env \<Rightarrow> 'p \<Rightarrow> 'n descriptor \<Rightarrow>
     error + ('n, 'p, 'r) route_call" where
  "MockApi num pattern_ok e page d =
     (case matcher_source num e d of
        Inl err \<Rightarrow> Inl err
      | Inr src \<Rightarrow>
          (case new_RegExp pattern_ok src of
             Inl err \<Rightarrow> Inl err
           | Inr m \<Rightarrow> Inr (PageRoute page m (handler d))))"

section \<open>Matching a request URL\<close>

text \<open>
  The host tests the request URL against the regular expression: it looks for a match
  of one of the alternatives of the pattern, from the first position of the URL on. The
  patterns covered here are alternatives, separated by \<open>|\<close>, of the assertions \<open>^\<close>
  and \<open>$\<close> and of one-character atoms: a character that is no syntax character, an
  escaped syntax character or slash, a dot, a closing brace, and an opening brace before
  anything but a digit (where it cannot start a quantifier). On any other pattern the
  model gives no answer (\<open>None\<close>).
\<close>

datatype rx_item = Start | End | Bar | Lit code_unit | AnyChar

definition syntax_char :: "code_unit \<Rightarrow> bool" where
  "syntax_char c \<longleftrightarrow>
     c \<in> {caret, dollar, backslash, dot, 0x2A, 0x2B, question, 0x28, 0x29, 0x5B, 0x5D,
          lbrace, rbrace, bar}"

definition is_digit :: "code_unit \<Rightarrow> bool" where
  "is_digit c \<longleftrightarrow> 0x30 \<le> c \<and> c \<le> 0x39"

fun lex_pattern :: "jsstring \<Rightarrow> rx_item list option" where
  "lex_pattern [] = Some []"
| "lex_pattern (c # cs) =
     (if c = backslash then
        (case cs of
           [] \<Rightarrow> None
         | d # ds \<Rightarrow>
             if syntax_char d \<or> d = slash then map_option ((#) (Lit d)) (lex_pattern ds)
             else None)
      else if c = caret then map_option ((#) Start) (lex_pattern cs)
      else if c = dollar then map_option ((#) End) (lex_pattern cs)
      else if c = bar then map_option ((#) Bar) (lex_pattern cs)
      else if c = dot then map_option ((#) AnyChar) (lex_pattern cs)
      else if c = lbrace then
        (case cs of
           [] \<Rightarrow> None
         | d # ds \<Rightarrow> if is_digit d then None else map_option ((#) (Lit lbrace)) (lex_pattern cs))
      else if c = rbrace then map_option ((#) (Lit rbrace)) (lex_pattern cs)
      else if syntax_char c then None
      else map_option ((#) (Lit c)) (lex_pattern cs))"

text \<open>The alternatives of a pattern: its items between the bars.\<close>

fun alternatives :: "rx_item list \<Rightarrow> rx_item list list" where
  "alternatives [] = [[]]"
| "alternatives (t # ts) =
     (if t = Bar then [] # alternatives ts
      else (case alternatives ts of
              [] \<Rightarrow> [[t]]
            | a # rest \<Rightarrow> (t # a) # rest))"

text \<open>
  An alternative matches at a position when its items match in turn: \<open>^\<close> holds at the
  first position only, \<open>$\<close> at the end only, and an atom takes one code unit. Without
  flags a dot matches every code unit but the four line terminators.
\<close>

fun match_at :: "rx_item list \<Rightarrow> bool \<Rightarrow> jsstring \<Rightarrow> bool" where
  "match_at [] first u = True"
| "match_at (Start # r) first u = (first \<and> match_at r first u)"
| "match_at (End # r) first u = (u = [] \<and> match_at r first u)"
| "match_at (Bar # r) first u = False"
| "match_at (Lit c # r) first [] = False"
| "match_at (Lit c # r) first (x # xs) = (x = c \<and> match_at r False xs)"
| "match_at (AnyChar # r) first [] = False"
| "match_at (AnyChar # r) first (x # xs) =
     (x \<notin> {0x0A, 0x0D, 0x2028, 0x2029} \<and> match_at r False xs)"

fun search :: "rx_item list list \<Rightarrow> bool \<Rightarrow> jsstring \<Rightarrow> bool" where
  "search alts first [] = list_ex (\<lambda>a. match_at a first []) alts"
| "search alts first (x # xs) =
     (list_ex (\<lambda>a. match_at a first (x # xs)) alts \<or> search alts False xs)"

fun regexp_test :: "regexp \<Rightarrow> jsstring \<Rightarrow> bool option" where
  "regexp_test (RegExp src) u =
     (case lex_pattern src of
        None \<Rightarrow> None
      | Some ts \<Rightarrow> Some (search (alternatives ts) True u))"

text \<open>The URL of a request to a path under the configured base URL.\<close>

definition request_url :: "env \<Rightarrow> jsstring \<Rightarrow> jsstring" where
  "request_url e p = base_url e @ p"

section \<open>Path templates\<close>











text \<open>
  The order of operations as the specification words it: substitute the URL-encoded
  values into the path first, then escape the forward slashes.
\<close>

definition spec_pathString :: "('n \<Rightarrow> jsstring) \<Rightarrow> 'n descriptor \<Rightarrow> error + jsstring" where
  "spec_pathString num d =
     (case reduce_pathParam num (path_entries d) (path d) of
        Inl e \<Rightarrow> Inl e
      | Inr s \<Rightarrow> Inr (escape_slashes s))"

section \<open>Values that print and strings that encode\<close>

text \<open>
  A value prints when neither it nor, for an array, an element that is printed is an
  object with an own property \<open>toString\<close>.
\<close>

fun printable :: "'n jsval \<Rightarrow> bool" where
  "printable (JArr xs) = list_all (\<lambda>x. x = JUndefined \<or> x = JNull \<or> printable x) xs"
| "printable (JObj kvs) = (ascii ''toString'' \<notin> set (map fst kvs))"
| "printable v = True"

text \<open>A string is well-formed when it holds no unpaired surrogate.\<close>

fun well_formed :: "jsstring \<Rightarrow> bool" where
  "well_formed [] = True"
| "well_formed [c] = (\<not> is_lead c \<and> \<not> is_trail c)"
| "well_formed (c # d # ds) =
     (if is_lead c then is_trail d \<and> well_formed ds
      else \<not> is_trail c \<and> well_formed (d # ds))"

section \<open>Example inputs\<close>

text \<open>
  In the examples the numbers are the integers from 0 to 4294967295. Each of them
  is a Number, and \<open>Number::toString\<close> prints it as its decimal numeral.
\<close>

type_synonym uint32 = "32 word"

fun digits_of :: "nat \<Rightarrow> jsstring" where
  "digits_of n =
     (if n < 10 then [0x30 + of_nat n]
      else digits_of (n div 10) @ [0x30 + of_nat (n mod 10)])"

declare digits_of.simps [simp del]

definition uint32_toString :: "uint32 \<Rightarrow> jsstring" where
  "uint32_toString n = digits_of (unat n)"

definition accept_all :: "jsstring \<Rightarrow> bool" where
  "accept_all src = True"

definition localhost :: env where
  "localhost = \<lparr> BASE_URL = Some (ascii ''http://localhost:3000'') \<rparr>"

definition mock :: "jsstring \<Rightarrow> uint32 descriptor" where
  "mock p = \<lparr> path = p, status = None, method = None, json = None, query = None,
              pathParam = None \<rparr>"

definition pet_list :: "uint32 jsval" where
  "pet_list = JArr [JObj [(ascii ''id'', JNum 2), (ascii ''name'', JStr (ascii ''pet-name''))]]"

definition default_status_mock :: "uint32 descriptor" where
  "default_status_mock =
     (mock (ascii ''/pets''))\<lparr> status := Some (JStr (ascii ''default'')), json := Some pet_list \<rparr>"

definition ok_status_mock :: "uint32 descriptor" where
  "ok_status_mock = (mock (ascii ''/pets''))\<lparr> status := Some (JNum 200), json := Some pet_list \<rparr>"


definition empty_query_mock :: "uint32 descriptor" where
  "empty_query_mock = (mock (ascii ''/pets/{id}''))\<lparr> query := Some [] \<rparr>"


definition slash_key_mock :: "uint32 descriptor" where
  "slash_key_mock =
     (mock (ascii ''/x/{a/b}''))\<lparr> pathParam := Some [(ascii ''a/b'', JStr (ascii ''1''))] \<rparr>"

definition space_id_mock :: "uint32 descriptor" where
  "space_id_mock =
     (mock (ascii ''/pets/{id}''))\<lparr> pathParam := Some [(ascii ''id'', JStr (ascii ''a b''))] \<rparr>"






definition pet_by_id_mock :: "uint32 descriptor" where
  "pet_by_id_mock = (mock (ascii ''/pets/{id}''))\<lparr> pathParam := Some [(ascii ''id'', JNum 1)] \<rparr>"

definition pet_one_mock :: "uint32 descriptor" where
  "pet_one_mock = mock (ascii ''/pets/1'')"

definition users_mock :: "uint32 descriptor" where
  "users_mock = mock (ascii ''/users'')"

definition example_com :: env where
  "example_com = \<lparr> BASE_URL = Some (ascii ''https://api.example.com'') \<rparr>"

definition bar_path_mock :: "uint32 descriptor" where
  "bar_path_mock = (mock (ascii ''/a|b''))\<lparr> query := Some [] \<rparr>"

definition lone_surrogate_mock :: "uint32 descriptor" where
  "lone_surrogate_mock =
     (mock (ascii ''/pets/{id}''))\<lparr> pathParam := Some [(ascii ''id'', JStr [0xD800])] \<rparr>"

definition own_toString_mock :: "uint32 descriptor" where
  "own_toString_mock =
     (mock (ascii ''/pets''))\<lparr> query := Some [(ascii ''a'', JObj [(ascii ''toString'', JNum 1)])] \<rparr>"

definition unmatched_mock :: "uint32 descriptor" where
  "unmatched_mock =
     (mock (ascii ''/pets/{id}''))\<lparr> pathParam := Some [(ascii ''name'', JStr (ascii ''a b''))],
        query := Some [(ascii ''a'', JNum 1)] \<rparr>"

definition unset_env :: env where
  "unset_env = \<lparr> BASE_URL = None \<rparr>"

section \<open>Auxiliary facts\<close>

subsection \<open>What a replacement and an encoded value can hold\<close>

lemma GetSubstitution_no_dollar: "dollar \<notin> set r \<Longrightarrow> GetSubstitution m pre post r = r"
  by (induction m pre post r rule: GetSubstitution.induct) auto

lemma hexdigit_unreserved: "d < 16 \<Longrightarrow> uriUnreserved (hexdigit d)"
proof -
  assume "d < 16"
  then have "d = 0 \<or> d = 1 \<or> d = 2 \<or> d = 3 \<or> d = 4 \<or> d = 5 \<or> d = 6 \<or> d = 7 \<or> d = 8
      \<or> d = 9 \<or> d = 10 \<or> d = 11 \<or> d = 12 \<or> d = 13 \<or> d = 14 \<or> d = 15"
    by arith
  then show ?thesis
    by (elim disjE) (simp_all add: hexdigit_def uriUnreserved_def)
qed

lemma utf8_octets: "n < 0x110000 \<Longrightarrow> b \<in> set (utf8 n) \<Longrightarrow> b < 256"
  by (auto simp: utf8_def split: if_splits)

lemma percent_octet_chars:
  "b < 256 \<Longrightarrow> c \<in> set (percent_octet b) \<Longrightarrow> uriUnreserved c \<or> c = percent"
  by (auto simp: percent_octet_def intro!: hexdigit_unreserved)

lemma percent_code_point_chars:
  "n < 0x110000 \<Longrightarrow> c \<in> set (percent_code_point n) \<Longrightarrow> uriUnreserved c \<or> c = percent"
  unfolding percent_code_point_def using utf8_octets percent_octet_chars by fastforce

lemma surrogate_pair_bound: "is_lead c \<Longrightarrow> is_trail d \<Longrightarrow> surrogate_pair c d < 0x110000"
proof -
  assume "is_lead c" and "is_trail d"
  then have "unat c \<le> 0xDBFF" and "unat d \<le> 0xDFFF"
    by (simp_all add: is_lead_def is_trail_def word_le_nat_alt)
  then show ?thesis
    unfolding surrogate_pair_def by arith
qed

lemma code_unit_bound: "unat (c :: code_unit) < 0x110000"
  using unsigned_less [of c, where ?'a = nat] by simp

lemma Encode_chars:
  "Encode s = Inr r \<Longrightarrow> c \<in> set r \<Longrightarrow> uriUnreserved c \<or> c = percent"
proof (induction s arbitrary: r rule: Encode.induct)
  case 1
  then show ?case by simp
next
  case (2 c' cs)
  then show ?case
    by (auto split: if_splits sum.splits list.splits
        dest: percent_code_point_chars [OF surrogate_pair_bound]
              percent_code_point_chars [OF code_unit_bound])
qed

lemma Encode_no_slash: "Encode s = Inr r \<Longrightarrow> slash \<notin> set r"
  using Encode_chars [of s r slash] by (auto simp: uriUnreserved_def)


lemma Encode_no_dollar: "Encode s = Inr r \<Longrightarrow> dollar \<notin> set r"
  using Encode_chars [of s r dollar] by (auto simp: uriUnreserved_def)

lemma encodeURIComponent_Inr:
  "encodeURIComponent num v = Inr r \<Longrightarrow> \<exists>s. ToString num v = Inr s \<and> Encode s = Inr r"
  by (cases "ToString num v") (simp_all add: encodeURIComponent_def)

lemma encodeURIComponent_no_slash: "encodeURIComponent num v = Inr r \<Longrightarrow> slash \<notin> set r"
  using encodeURIComponent_Inr Encode_no_slash by blast


lemma encodeURIComponent_no_dollar: "encodeURIComponent num v = Inr r \<Longrightarrow> dollar \<notin> set r"
  using encodeURIComponent_Inr Encode_no_dollar by blast

subsection \<open>The outcome of the registrar\<close>

lemma MockApi_Inr:
  "MockApi num ok e pg d = Inr (PageRoute p m h) \<longleftrightarrow>
     (\<exists>src. matcher_source num e d = Inr src \<and> ok src \<and> p = pg \<and> m = RegExp src \<and> h = handler d)"
  by (auto simp: MockApi_def new_RegExp_def split: sum.splits if_splits)

lemma MockApi_ok:
  "matcher_source num e d = Inr src \<Longrightarrow> ok src \<Longrightarrow>
   MockApi num ok e pg d = Inr (PageRoute pg (RegExp src) (handler d))"
  by (simp add: MockApi_def new_RegExp_def)

lemma path_entries_method [simp]: "path_entries (d\<lparr>method := m\<rparr>) = path_entries d"
  by (simp add: path_entries_def)

lemma pathString_method [simp]: "pathString num (d\<lparr>method := m\<rparr>) = pathString num d"
  by (simp add: pathString_def)

lemma matcher_source_method [simp]: "matcher_source num e (d\<lparr>method := m\<rparr>) = matcher_source num e d"
  by (simp add: matcher_source_def cong: sum.case_cong)

lemma handler_method [simp]: "handler (d\<lparr>method := m\<rparr>) = handler d"
  by (rule ext) (simp add: handler_def fulfill_args_def)

lemma source_pets:
  "matcher_source uint32_toString localhost (mock (ascii ''/pets'')) =
     Inr ([caret] @ ascii ''http://localhost:3000'' @ [backslash, slash] @ ascii ''pets$'')"
  by code_simp

lemma source_default_status:
  "matcher_source uint32_toString localhost default_status_mock =
     Inr ([caret] @ ascii ''http://localhost:3000'' @ [backslash, slash] @ ascii ''pets$'')"
  by code_simp

lemma source_ok_status:
  "matcher_source uint32_toString localhost ok_status_mock =
     Inr ([caret] @ ascii ''http://localhost:3000'' @ [backslash, slash] @ ascii ''pets$'')"
  by code_simp

subsection \<open>Paths without placeholder\<close>

lemma escape_slashes_Nil [simp]: "escape_slashes [] = []"
  by (simp add: escape_slashes_def)

lemma escape_slashes_Cons [simp]:
  "escape_slashes (c # cs) =
     (if c = slash then backslash # slash # escape_slashes cs else c # escape_slashes cs)"
  by (simp add: escape_slashes_def)

lemma escape_slashes_append [simp]:
  "escape_slashes (a @ b) = escape_slashes a @ escape_slashes b"
  by (simp add: escape_slashes_def)










subsection \<open>Escaping and substituting\<close>

lemma escape_slashes_id: "slash \<notin> set r \<Longrightarrow> escape_slashes r = r"
  by (induction r) simp_all

lemma split_first_prefix: "T \<noteq> [] \<Longrightarrow> split_first T (T @ rest) = Some ([], rest)"
  by (cases T) simp_all

lemma prefix_escape_slashes:
  "slash \<notin> set T \<Longrightarrow> T = [] \<or> last T \<noteq> backslash \<Longrightarrow>
   prefix T (escape_slashes s) \<longleftrightarrow> prefix T s"
proof (induction T arbitrary: s)
  case Nil
  show ?case by simp
next
  case (Cons t ts)
  from Cons.prems have t: "t \<noteq> slash" and ts: "slash \<notin> set ts"
    and l: "ts = [] \<or> last ts \<noteq> backslash" and e: "ts = [] \<longrightarrow> t \<noteq> backslash"
    by (simp_all split: if_splits)
  note IH = Cons.IH [OF ts l]
  show ?case
  proof (cases s)
    case Nil
    then show ?thesis by simp
  next
    case (Cons c cs)
    show ?thesis
    proof (cases "c = slash")
      case True
      have "\<not> prefix (t # ts) (backslash # slash # escape_slashes cs)"
      proof
        assume "prefix (t # ts) (backslash # slash # escape_slashes cs)"
        then have "t = backslash" and p: "prefix ts (slash # escape_slashes cs)" by simp_all
        with e obtain u us where "ts = u # us" by (cases ts) simp_all
        with p ts show False by simp
      qed
      with True t Cons show ?thesis by simp
    next
      case False
      with Cons IH show ?thesis by simp
    qed
  qed
qed

lemma split_first_escape_slashes:
  assumes "slash \<notin> set T" and "T \<noteq> []" and "last T \<noteq> backslash"
  shows "split_first T (escape_slashes s) =
     map_option (\<lambda>(p, q). (escape_slashes p, escape_slashes q)) (split_first T s)"
proof (induction s)
  case Nil
  from assms(2) show ?case by simp
next
  case (Cons c cs)
  have pe: "prefix T (escape_slashes (c # cs)) \<longleftrightarrow> prefix T (c # cs)"
    using assms by (intro prefix_escape_slashes) simp_all
  show ?case
  proof (cases "prefix T (c # cs)")
    case True
    then obtain rest where rest: "c # cs = T @ rest" by (auto simp: prefix_def)
    have l: "split_first T (c # cs) = Some ([], rest)"
      unfolding rest by (rule split_first_prefix [OF assms(2)])
    have e: "escape_slashes (c # cs) = T @ escape_slashes rest"
      unfolding rest by (simp add: escape_slashes_id [OF assms(1)])
    have r: "split_first T (escape_slashes (c # cs)) = Some ([], escape_slashes rest)"
      unfolding e by (rule split_first_prefix [OF assms(2)])
    show ?thesis unfolding l r by simp
  next
    case False
    with pe have np: "\<not> prefix T (escape_slashes (c # cs))" by simp
    from assms obtain t ts where T: "T = t # ts" and t: "t \<noteq> slash"
      by (cases T) auto
    show ?thesis
    proof (cases "c = slash")
      case True
      with np have "\<not> prefix T (backslash # slash # escape_slashes cs)" by simp
      moreover from T t have "\<not> prefix T (slash # escape_slashes cs)" by simp
      ultimately show ?thesis
        using True False Cons.IH by (simp split: option.splits)
    next
      case c: False
      with np have "\<not> prefix T (c # escape_slashes cs)" by simp
      then show ?thesis
        using c False Cons.IH by (simp split: option.splits)
    qed
  qed
qed

lemma replace_escape_slashes:
  assumes "slash \<notin> set T" and "T \<noteq> []" and "last T \<noteq> backslash"
    and "slash \<notin> set r" and "dollar \<notin> set r"
  shows "replace T r (escape_slashes s) = escape_slashes (replace T r s)"
  unfolding replace_def split_first_escape_slashes [OF assms(1-3)]
  by (cases "split_first T s")
    (auto simp: GetSubstitution_no_dollar [OF assms(5)] escape_slashes_id [OF assms(4)])

lemma token_no_slash: "slash \<notin> set k \<Longrightarrow> slash \<notin> set (token k)"
  by (simp add: token_def)

lemma token_not_Nil: "token k \<noteq> []"
  by (simp add: token_def)

lemma token_last: "last (token k) \<noteq> backslash"
  by (simp add: token_def)

lemma reduce_pathParam_escape:
  "\<forall>(k, v) \<in> set es. slash \<notin> set k \<Longrightarrow>
   reduce_pathParam num es (escape_slashes p) =
     (case reduce_pathParam num es p of Inl e \<Rightarrow> Inl e | Inr s \<Rightarrow> Inr (escape_slashes s))"
proof (induction es arbitrary: p)
  case Nil
  show ?case by simp
next
  case (Cons kv es)
  obtain k v where kv: "kv = (k, v)" by (cases kv)
  from Cons.prems kv have k: "slash \<notin> set k" and es: "\<forall>(k, v) \<in> set es. slash \<notin> set k"
    by simp_all
  show ?case
  proof (cases "encodeURIComponent num v")
    case (Inl e)
    with kv show ?thesis by simp
  next
    case (Inr r)
    then have r: "slash \<notin> set r" "dollar \<notin> set r"
      by (rule encodeURIComponent_no_slash, rule encodeURIComponent_no_dollar)
    have "replace (token k) r (escape_slashes p) = escape_slashes (replace (token k) r p)"
      using token_no_slash [OF k] token_not_Nil token_last r by (rule replace_escape_slashes)
    with kv Inr Cons.IH [OF es] show ?thesis by simp
  qed
qed

lemma pathString_space_id:
  "pathString uint32_toString space_id_mock =
     Inr ([backslash, slash] @ ascii ''pets'' @ [backslash, slash] @ ascii ''a%20b'')"
  by code_simp

subsection \<open>Substitution in a template\<close>




















subsection \<open>Matching\<close>

lemma syntax_char_consts [simp]:
  "syntax_char backslash" "syntax_char dot" "syntax_char lbrace" "syntax_char rbrace"
  "syntax_char question" "syntax_char dollar" "syntax_char caret" "syntax_char bar"
  "\<not> syntax_char slash"
  by (simp_all add: syntax_char_def)

lemma plain_char_not_special:
  "\<not> syntax_char c \<Longrightarrow>
   c \<noteq> backslash \<and> c \<noteq> dot \<and> c \<noteq> lbrace \<and> c \<noteq> rbrace \<and> c \<noteq> caret \<and> c \<noteq> dollar \<and> c \<noteq> bar"
  by (rule ccontr) (simp, elim disjE, simp_all)

lemma lex_plain_char:
  "\<not> syntax_char c \<Longrightarrow> lex_pattern (c # cs) = map_option ((#) (Lit c)) (lex_pattern cs)"
  using plain_char_not_special [of c] by simp

lemma lex_dot: "lex_pattern (dot # cs) = map_option ((#) AnyChar) (lex_pattern cs)"
  by simp

lemma lex_escaped:
  "syntax_char d \<or> d = slash \<Longrightarrow>
   lex_pattern (backslash # d # ds) = map_option ((#) (Lit d)) (lex_pattern ds)"
  by simp

lemma lex_caret: "lex_pattern (caret # cs) = map_option ((#) Start) (lex_pattern cs)"
  by simp

lemma lex_dollar: "lex_pattern (dollar # cs) = map_option ((#) End) (lex_pattern cs)"
  by simp

lemma lex_bar: "lex_pattern (bar # cs) = map_option ((#) Bar) (lex_pattern cs)"
  by simp

lemma lex_rbrace: "lex_pattern (rbrace # cs) = map_option ((#) (Lit rbrace)) (lex_pattern cs)"
  by simp

lemma lex_step_append:
  assumes step: "\<And>r. lex_pattern (c # r) = map_option ((#) x) (lex_pattern r)"
    and prem: "lex_pattern (c # cs) = Some ts"
    and IH: "\<And>ts'. lex_pattern cs = Some ts' \<Longrightarrow>
      lex_pattern (cs @ t) = (case lex_pattern t of None \<Rightarrow> None | Some us \<Rightarrow> Some (ts' @ us))"
  shows "lex_pattern ((c # cs) @ t) =
    (case lex_pattern t of None \<Rightarrow> None | Some us \<Rightarrow> Some (ts @ us))"
proof -
  from prem obtain ts' where l: "lex_pattern cs = Some ts'" and ts: "ts = x # ts'"
    unfolding step by (cases "lex_pattern cs") auto
  have "lex_pattern ((c # cs) @ t) = map_option ((#) x) (lex_pattern (cs @ t))"
    unfolding append_Cons by (rule step)
  then show ?thesis
    unfolding IH [OF l] ts by (cases "lex_pattern t") simp_all
qed

lemma lex_append:
  "lex_pattern s = Some ts \<Longrightarrow>
   lex_pattern (s @ t) = (case lex_pattern t of None \<Rightarrow> None | Some us \<Rightarrow> Some (ts @ us))"
proof (induction s arbitrary: ts rule: lex_pattern.induct)
  case 1
  then show ?case by (cases "lex_pattern t") simp_all
next
  case (2 c cs)
  show ?case
  proof (cases "c = backslash")
    case True
    with "2.prems" obtain d ds ts' where cs: "cs = d # ds" and d: "syntax_char d \<or> d = slash"
      and ds: "lex_pattern ds = Some ts'" and ts: "ts = Lit d # ts'"
      by (cases cs) (auto split: if_splits)
    from "2.IH"(1) [OF True cs d ds] True cs d ts show ?thesis
      by (cases "lex_pattern t") simp_all
  next
    case nb: False
    show ?thesis
    proof (cases "c = caret")
      case True
      show ?thesis
        using lex_caret "2.prems" "2.IH"(2) [OF nb True] unfolding True by (rule lex_step_append)
    next
      case nc: False
      show ?thesis
      proof (cases "c = dollar")
        case True
        show ?thesis
          using lex_dollar "2.prems" "2.IH"(3) [OF nb nc True] unfolding True
          by (rule lex_step_append)
      next
        case nd: False
        show ?thesis
        proof (cases "c = bar")
          case True
          show ?thesis
            using lex_bar "2.prems" "2.IH"(4) [OF nb nc nd True] unfolding True
            by (rule lex_step_append)
        next
          case nr: False
          show ?thesis
          proof (cases "c = dot")
            case True
            show ?thesis
              using lex_dot "2.prems" "2.IH"(5) [OF nb nc nd nr True] unfolding True
              by (rule lex_step_append)
          next
            case no: False
            show ?thesis
            proof (cases "c = lbrace")
              case True
              with "2.prems" obtain d ds ts' where cs: "cs = d # ds" and d: "\<not> is_digit d"
                and l: "lex_pattern cs = Some ts'" and ts: "ts = Lit lbrace # ts'"
                by (cases cs) (auto split: if_splits)
              from "2.IH"(6) [OF nb nc nd nr no True cs d l] True cs d ts show ?thesis
                by (cases "lex_pattern t") simp_all
            next
              case nl: False
              show ?thesis
              proof (cases "c = rbrace")
                case True
                show ?thesis
                  using lex_rbrace "2.prems" "2.IH"(7) [OF nb nc nd nr no nl True] unfolding True
                  by (rule lex_step_append)
              next
                case nrb: False
                from "2.prems" nb nc nd nr no nl nrb have p: "\<not> syntax_char c"
                  by (simp split: if_splits)
                show ?thesis
                  using lex_plain_char [OF p] "2.prems" "2.IH"(8) [OF nb nc nd nr no nl nrb p]
                  by (rule lex_step_append)
              qed
            qed
          qed
        qed
      qed
    qed
  qed
qed

lemma lex_base:
  "\<forall>c \<in> set b. \<not> syntax_char c \<or> c = dot \<Longrightarrow>
   lex_pattern b = Some (map (\<lambda>c. if c = dot then AnyChar else Lit c) b)"
proof (induction b)
  case Nil
  show ?case by simp
next
  case (Cons c b)
  from Cons.prems have c: "\<not> syntax_char c \<or> c = dot"
    and b: "\<forall>c \<in> set b. \<not> syntax_char c \<or> c = dot"
    by simp_all
  show ?case
  proof (cases "c = dot")
    case True
    show ?thesis unfolding True lex_dot Cons.IH [OF b] by simp
  next
    case False
    with c have p: "\<not> syntax_char c" by simp
    show ?thesis unfolding lex_plain_char [OF p] Cons.IH [OF b] using False by simp
  qed
qed

lemma lex_escaped_plain:
  "\<forall>c \<in> set p. \<not> syntax_char c \<Longrightarrow> lex_pattern (escape_slashes p) = Some (map Lit p)"
proof (induction p)
  case Nil
  show ?case by simp
next
  case (Cons c p)
  from Cons.prems have c: "\<not> syntax_char c" and p: "\<forall>c \<in> set p. \<not> syntax_char c"
    by simp_all
  show ?case
  proof (cases "c = slash")
    case True
    have "lex_pattern (backslash # slash # escape_slashes p) =
        map_option ((#) (Lit slash)) (lex_pattern (escape_slashes p))"
      by (rule lex_escaped) simp
    then show ?thesis unfolding Cons.IH [OF p] using True by simp
  next
    case False
    have "lex_pattern (c # escape_slashes p) = map_option ((#) (Lit c)) (lex_pattern (escape_slashes p))"
      by (rule lex_plain_char [OF c])
    then show ?thesis unfolding Cons.IH [OF p] using False by simp
  qed
qed

lemma alternatives_no_bar: "Bar \<notin> set ts \<Longrightarrow> alternatives ts = [ts]"
  by (induction ts) auto

lemma match_lits_end: "match_at (map Lit p @ [End]) f u \<longleftrightarrow> u = p"
proof (induction p arbitrary: f u)
  case Nil
  show ?case by simp
next
  case (Cons c p)
  show ?case by (cases u) (auto simp: Cons.IH)
qed

lemma match_base:
  "match_at (map (\<lambda>c. if c = dot then AnyChar else Lit c) b @ map Lit p @ [End]) f (b @ v)
     \<longleftrightarrow> v = p"
proof (induction b arbitrary: f)
  case Nil
  show ?case by (simp add: match_lits_end)
next
  case (Cons c b)
  show ?case
  proof (cases "c = dot")
    case True
    show ?thesis unfolding True by (simp add: Cons.IH)
  next
    case False
    then show ?thesis by (simp add: Cons.IH)
  qed
qed

lemma search_Start_False: "\<not> search [Start # r] False u"
  by (induction u) simp_all

lemma search_single_Start: "search [Start # r] True u = match_at r True u"
  by (cases u) (simp_all add: search_Start_False)

lemma base_items_no_bar: "Bar \<notin> set (map (\<lambda>c. if c = dot then AnyChar else Lit c) b)"
  by (induction b) simp_all

lemma lit_items_no_bar: "Bar \<notin> set (map Lit p)"
  by (induction p) simp_all

lemma regexp_test_plain:
  assumes "\<forall>c \<in> set b. \<not> syntax_char c \<or> c = dot" and "\<forall>c \<in> set p. \<not> syntax_char c"
  shows "regexp_test (RegExp ([caret] @ b @ escape_slashes p @ [dollar])) (b @ p') = Some (p' = p)"
proof -
  let ?B = "map (\<lambda>c. if c = dot then AnyChar else Lit c) b"
  have 1: "lex_pattern (escape_slashes p @ [dollar]) = Some (map Lit p @ [End])"
    unfolding lex_append [OF lex_escaped_plain [OF assms(2)]] by simp
  have 2: "lex_pattern (b @ escape_slashes p @ [dollar]) = Some (?B @ map Lit p @ [End])"
    unfolding lex_append [OF lex_base [OF assms(1)]] 1 by simp
  have 3: "lex_pattern ([caret] @ b @ escape_slashes p @ [dollar]) =
      Some (Start # ?B @ map Lit p @ [End])"
    unfolding append_Cons append_Nil lex_caret 2 by simp
  have 4: "alternatives (Start # ?B @ map Lit p @ [End]) = [Start # ?B @ map Lit p @ [End]]"
    by (rule alternatives_no_bar)
      (simp only: set_simps set_append Un_iff insert_iff base_items_no_bar lit_items_no_bar
         rx_item.simps empty_iff simp_thms not_False_eq_True)
  show ?thesis
    unfolding regexp_test.simps 3 4 option.case search_single_Start match_base ..
qed

lemma match_question_end:
  "match_at (pre @ [Lit question, End]) f u \<Longrightarrow> u \<noteq> [] \<and> last u = question"
proof (induction pre arbitrary: f u)
  case Nil
  then show ?case by (cases u) auto
next
  case (Cons it pre)
  show ?case
  proof (cases it)
    case Start
    with Cons.prems Cons.IH [of f u] show ?thesis by auto
  next
    case End
    with Cons.prems Cons.IH [of f u] show ?thesis by auto
  next
    case Bar
    with Cons.prems show ?thesis by simp
  next
    case (Lit c)
    with Cons.prems obtain x xs where "u = x # xs" and "match_at (pre @ [Lit question, End]) False xs"
      by (cases u) auto
    with Cons.IH [of False xs] show ?thesis by simp
  next
    case AnyChar
    with Cons.prems obtain x xs where "u = x # xs" and "match_at (pre @ [Lit question, End]) False xs"
      by (cases u) auto
    with Cons.IH [of False xs] show ?thesis by simp
  qed
qed

lemma search_last:
  assumes "\<And>f v. match_at a f v \<Longrightarrow> v \<noteq> [] \<and> last v = c"
  shows "search [a] f u \<Longrightarrow> u \<noteq> [] \<and> last u = c"
proof (induction u arbitrary: f)
  case Nil
  with assms [of f "[]"] show ?case by simp
next
  case (Cons x xs)
  from Cons.prems have "match_at a f (x # xs) \<or> search [a] False xs" by simp
  then show ?case
  proof
    assume "match_at a f (x # xs)"
    then show ?thesis by (rule assms)
  next
    assume "search [a] False xs"
    then have "xs \<noteq> [] \<and> last xs = c" by (rule Cons.IH)
    then show ?thesis by simp
  qed
qed

lemma empty_query_matches_question_only:
  assumes "lex_pattern s = Some ts" and "Bar \<notin> set ts"
  shows "\<exists>b. regexp_test (RegExp ([caret] @ s @ [backslash, question, dollar])) u = Some b
           \<and> (b \<longrightarrow> u \<noteq> [] \<and> last u = question)"
proof -
  have 1: "lex_pattern ([caret] @ s @ [backslash, question, dollar]) =
      Some (Start # ts @ [Lit question, End])"
    unfolding append_Cons append_Nil lex_caret lex_append [OF assms(1)] by simp
  have 2: "alternatives (Start # ts @ [Lit question, End]) = [Start # ts @ [Lit question, End]]"
    by (rule alternatives_no_bar) (simp add: assms(2))
  have 3: "search [Start # ts @ [Lit question, End]] True u \<Longrightarrow> u \<noteq> [] \<and> last u = question"
    by (rule search_last [where a = "(Start # ts) @ [Lit question, End]", simplified])
      (rule match_question_end [where pre = "Start # ts", simplified])
  show ?thesis
    unfolding regexp_test.simps 1 2 option.case using 3 by simp
qed

lemma pathString_query [simp]: "pathString num (d\<lparr>query := q\<rparr>) = pathString num d"
  by (simp add: pathString_def path_entries_def)

lemma collect_pairs:
  "collect (map (\<lambda>(k, v). case f v of Inl e \<Rightarrow> Inl e | Inr s \<Rightarrow> Inr (g k s)) q) =
     (case collect (map (f \<circ> snd) q) of
        Inl e \<Rightarrow> Inl e
      | Inr texts \<Rightarrow> Inr (map (\<lambda>((k, v), s). g k s) (zip q texts)))"
proof (induction q)
  case Nil
  show ?case by simp
next
  case (Cons kv q)
  obtain k v where kv: "kv = (k, v)" by (cases kv)
  show ?case
    unfolding kv comp_def
    by (cases "f v"; cases "collect (map (\<lambda>kv. f (snd kv)) q)")
      (simp_all add: Cons.IH [unfolded comp_def])
qed

lemma mkQParams_texts:
  "mkQParams num q =
     (case collect (map (ToString num \<circ> snd) q) of
        Inl e \<Rightarrow> Inl e
      | Inr texts \<Rightarrow>
          Inr (join [ampersand] (map (\<lambda>((k, v), s). k @ [equals] @ s) (zip q texts))))"
  unfolding mkQParams_def collect_pairs
  by (cases "collect (map (ToString num \<circ> snd) q)") simp_all


lemma source_pet_by_id:
  "matcher_source uint32_toString localhost pet_by_id_mock =
       Inr ([caret] @ ascii ''http://localhost:3000'' @ [backslash, slash] @ ascii ''pets''
            @ [backslash, slash] @ ascii ''1$'')"
  by code_simp

lemma source_pet_one:
  "matcher_source uint32_toString localhost pet_one_mock =
       Inr ([caret] @ ascii ''http://localhost:3000'' @ [backslash, slash] @ ascii ''pets''
            @ [backslash, slash] @ ascii ''1$'')"
  by code_simp

lemma test_pet_one:
  "regexp_test (RegExp ([caret] @ ascii ''http://localhost:3000'' @ [backslash, slash] @ ascii ''pets''
            @ [backslash, slash] @ ascii ''1$'')) (request_url localhost (path pet_one_mock)) = Some True"
  by code_simp

lemma pathString_pet_by_id:
  "pathString uint32_toString pet_by_id_mock = Inr (escape_slashes (ascii ''/pets/1''))"
  by code_simp

lemma pathString_users: "pathString uint32_toString users_mock = Inr (escape_slashes (ascii ''/users''))"
  by code_simp

lemma source_pet_by_id_example:
  "matcher_source uint32_toString example_com pet_by_id_mock =
     Inr ([caret] @ ascii ''https://api.example.com'' @ [backslash, slash] @ ascii ''pets''
          @ [backslash, slash] @ ascii ''1$'')"
  by code_simp

lemma source_users_example:
  "matcher_source uint32_toString example_com users_mock =
     Inr ([caret] @ ascii ''https://api.example.com'' @ [backslash, slash] @ ascii ''users$'')"
  by code_simp

lemma source_bar_path:
  "matcher_source uint32_toString localhost bar_path_mock =
     Inr ([caret] @ ascii ''http://localhost:3000'' @ [backslash, slash] @ ascii ''a|b''
          @ [backslash, question, dollar])"
  by code_simp

lemma test_bar_path:
  "regexp_test (RegExp ([caret] @ ascii ''http://localhost:3000'' @ [backslash, slash] @ ascii ''a|b''
          @ [backslash, question, dollar])) (ascii ''http://localhost:3000/a'') = Some True"
  by code_simp

lemma pathString_empty_query_mock:
  "pathString uint32_toString empty_query_mock = Inr ([backslash, slash] @ ascii ''pets'' @ [backslash, slash] @ ascii ''{id}'')"
  by code_simp

lemma lex_empty_query_mock:
  "lex_pattern (base_url localhost @ [backslash, slash] @ ascii ''pets'' @ [backslash, slash] @ ascii ''{id}'') =
     Some (map Lit (ascii ''http://localhost:3000/pets/{id}''))"
  by code_simp

lemma test_empty_query_mock:
  "regexp_test (RegExp ([caret] @ base_url localhost @ ([backslash, slash] @ ascii ''pets'' @ [backslash, slash] @ ascii ''{id}'')
      @ [backslash, question, dollar])) (ascii ''http://localhost:3000/pets/{id}?'') = Some True"
  by code_simp

subsection \<open>Which inputs raise an exception\<close>

lemma isl_case_sum: "isl (case x of Inl e \<Rightarrow> Inl e | Inr a \<Rightarrow> Inr (g a)) = isl x"
  by (cases x) simp_all

lemma collect_isl: "isl (collect xs) \<longleftrightarrow> (\<exists>x \<in> set xs. isl x)"
proof (induction xs)
  case Nil
  show ?case by simp
next
  case (Cons x xs)
  show ?case
    by (cases x; cases "collect xs") (use Cons.IH in simp_all)
qed

lemma collect_map_isl: "isl (collect (map f xs)) \<longleftrightarrow> (\<exists>x \<in> set xs. isl (f x))"
  unfolding collect_isl by simp

lemma ToString_isl: "isl (ToString num v) \<longleftrightarrow> \<not> printable v"
proof (induction num v rule: ToString.induct)
  case (6 num xs)
  have "isl (ToString num (JArr xs)) \<longleftrightarrow>
      (\<exists>x \<in> set xs. isl (if x = JUndefined \<or> x = JNull then Inr [] else ToString num x))"
    by (simp only: ToString.simps isl_case_sum collect_map_isl)
  also have "\<dots> \<longleftrightarrow> (\<exists>x \<in> set xs. \<not> (x = JUndefined \<or> x = JNull \<or> printable x))"
  proof (intro bex_cong refl)
    fix x
    assume x: "x \<in> set xs"
    show "isl (if x = JUndefined \<or> x = JNull then Inr [] else ToString num x) \<longleftrightarrow>
        \<not> (x = JUndefined \<or> x = JNull \<or> printable x)"
    proof (cases "x = JUndefined \<or> x = JNull")
      case True
      then show ?thesis by auto
    next
      case False
      with "6" [OF x False] show ?thesis by simp
    qed
  qed
  finally show ?case by (simp add: list_all_iff)
qed simp_all

lemma unreserved_not_surrogate: "uriUnreserved c \<Longrightarrow> \<not> is_lead c \<and> \<not> is_trail c"
proof -
  assume "uriUnreserved c"
  then have "unat c \<le> 0x7E"
    unfolding uriUnreserved_def by (elim disjE) (auto simp: word_le_nat_alt)
  then show ?thesis
    by (simp add: is_lead_def is_trail_def word_le_nat_alt)
qed

lemma lead_not_trail: "is_lead c \<Longrightarrow> \<not> is_trail c"
  by (simp add: is_lead_def is_trail_def word_le_nat_alt)

lemma Encode_isl: "isl (Encode s) \<longleftrightarrow> \<not> well_formed s"
proof (induction s rule: well_formed.induct)
  case 1
  show ?case by simp
next
  case (2 c)
  show ?case
    using unreserved_not_surrogate [of c] by (simp add: isl_case_sum)
next
  case (3 c d ds)
  show ?case
  proof (cases "is_lead c")
    case True
    with unreserved_not_surrogate [of c] lead_not_trail [of c]
    have "\<not> uriUnreserved c" "\<not> is_trail c" by auto
    with True "3.IH"(1) [OF True] show ?thesis by (simp add: isl_case_sum)
  next
    case False
    with unreserved_not_surrogate [of c] "3.IH"(2) [OF False] show ?thesis
      by (cases "uriUnreserved c"; cases "is_trail c") (simp_all add: isl_case_sum)
  qed
qed

lemma encodeURIComponent_ok:
  "\<not> isl (encodeURIComponent num v) \<longleftrightarrow>
     printable v \<and> (\<forall>s. ToString num v = Inr s \<longrightarrow> well_formed s)"
proof (cases "ToString num v")
  case (Inl e)
  then have "isl (ToString num v)" by simp
  then have "\<not> printable v" by (simp add: ToString_isl)
  with Inl show ?thesis by (simp add: encodeURIComponent_def)
next
  case (Inr s)
  then have "\<not> isl (ToString num v)" by simp
  then have "printable v" by (simp add: ToString_isl)
  with Inr show ?thesis by (simp add: encodeURIComponent_def Encode_isl)
qed

lemma reduce_pathParam_ok:
  "\<not> isl (reduce_pathParam num es acc) \<longleftrightarrow> (\<forall>(k, v) \<in> set es. \<not> isl (encodeURIComponent num v))"
proof (induction es arbitrary: acc)
  case Nil
  show ?case by simp
next
  case (Cons kv es)
  obtain k v where kv: "kv = (k, v)" by (cases kv)
  show ?case
    unfolding kv by (cases "encodeURIComponent num v") (simp_all add: Cons.IH)
qed

lemma mkQParams_ok: "\<not> isl (mkQParams num q) \<longleftrightarrow> (\<forall>(k, v) \<in> set q. printable v)"
proof -
  have "isl (mkQParams num q) \<longleftrightarrow> (\<exists>kv \<in> set q. isl (ToString num (snd kv)))"
    unfolding mkQParams_texts by (simp only: isl_case_sum collect_map_isl comp_def)
  then show ?thesis by (auto simp: ToString_isl)
qed

lemma matcher_source_ok:
  "\<not> isl (matcher_source num e d) \<longleftrightarrow>
     (\<forall>(k, v) \<in> set (path_entries d). printable v \<and> (\<forall>s. ToString num v = Inr s \<longrightarrow> well_formed s))
   \<and> (\<forall>q. query d = Some q \<longrightarrow> (\<forall>(k, v) \<in> set q. printable v))"
proof -
  have p: "\<not> isl (pathString num d) \<longleftrightarrow>
      (\<forall>(k, v) \<in> set (path_entries d). printable v \<and> (\<forall>s. ToString num v = Inr s \<longrightarrow> well_formed s))"
    unfolding pathString_def reduce_pathParam_ok encodeURIComponent_ok ..
  show ?thesis
  proof (cases "pathString num d")
    case (Inl err)
    with p show ?thesis by (simp add: matcher_source_def)
  next
    case (Inr ps)
    with p have *: "\<forall>(k, v) \<in> set (path_entries d).
        printable v \<and> (\<forall>s. ToString num v = Inr s \<longrightarrow> well_formed s)"
      by simp
    show ?thesis
    proof (cases "query d")
      case None
      with Inr * show ?thesis by (simp add: matcher_source_def)
    next
      case (Some q)
      have "\<not> isl (matcher_source num e d) \<longleftrightarrow> \<not> isl (mkQParams num q)"
        using Inr Some by (cases "mkQParams num q") (simp_all add: matcher_source_def)
      with Some * show ?thesis by (simp add: mkQParams_ok)
    qed
  qed
qed

lemma source_unset:
  "matcher_source uint32_toString unset_env unmatched_mock =
     Inr ([caret] @ ascii ''undefined'' @ [backslash, slash] @ ascii ''pets'' @ [backslash, slash]
          @ ascii ''{id}'' @ [backslash] @ ascii ''?a=1$'')"
  by code_simp

text \<open>
  An exception raised by the registrar is the one of the function that failed:
  \<open>TypeError\<close> from printing a value, \<open>URIError\<close> from encoding one,
  \<open>SyntaxError\<close> from the constructor of the pattern.
\<close>

lemma collect_Inl: "collect xs = Inl e \<Longrightarrow> Inl e \<in> set xs"
proof (induction xs)
  case Nil
  then show ?case by simp
next
  case (Cons x xs)
  then show ?case
    by (cases x; cases "collect xs") simp_all
qed

lemma sum_case_Inl: "(case x of Inl e \<Rightarrow> Inl e | Inr a \<Rightarrow> Inr (g a)) = Inl err \<Longrightarrow> x = Inl err"
  by (cases x) simp_all

lemma ToString_Inl: "ToString num v = Inl e \<Longrightarrow> e = TypeError"
proof (induction num v rule: ToString.induct)
  case (6 num xs)
  from "6.prems" have "collect (map (\<lambda>x. if x = JUndefined \<or> x = JNull then Inr []
      else ToString num x) xs) = Inl e"
    by (simp only: ToString.simps) (rule sum_case_Inl)
  then have "Inl e \<in> set (map (\<lambda>x. if x = JUndefined \<or> x = JNull then Inr []
      else ToString num x) xs)"
    by (rule collect_Inl)
  then obtain x where x: "x \<in> set xs"
    and e: "(if x = JUndefined \<or> x = JNull then Inr [] else ToString num x) = Inl e"
    by (auto simp only: set_map image_iff)
  from e have n: "\<not> (x = JUndefined \<or> x = JNull)" and "ToString num x = Inl e"
    by (simp_all split: if_splits)
  with "6.IH" [OF x n] show ?case by simp
qed (simp_all split: if_splits)

lemma Encode_Inl: "Encode s = Inl e \<Longrightarrow> e = URIError"
proof (induction s rule: Encode.induct)
  case 1
  then show ?case by simp
next
  case (2 c cs)
  then show ?case
    by (auto split: if_splits sum.splits list.splits)
qed

lemma encodeURIComponent_Inl:
  "encodeURIComponent num v = Inl e \<Longrightarrow>
   (e = TypeError \<and> \<not> printable v)
   \<or> (e = URIError \<and> (\<exists>s. ToString num v = Inr s \<and> \<not> well_formed s))"
proof (cases "ToString num v")
  case (Inl e')
  assume "encodeURIComponent num v = Inl e"
  with Inl have "e = e'" by (simp add: encodeURIComponent_def)
  moreover from Inl have "e' = TypeError" by (rule ToString_Inl)
  moreover from Inl have "isl (ToString num v)" by simp
  then have "\<not> printable v" by (simp add: ToString_isl)
  ultimately show ?thesis by simp
next
  case (Inr s)
  assume "encodeURIComponent num v = Inl e"
  with Inr have e: "Encode s = Inl e" by (simp add: encodeURIComponent_def)
  then have "e = URIError" by (rule Encode_Inl)
  moreover from e have "isl (Encode s)" by simp
  then have "\<not> well_formed s" by (simp add: Encode_isl)
  ultimately show ?thesis using Inr by simp
qed

lemma reduce_pathParam_Inl:
  "reduce_pathParam num es acc = Inl e \<Longrightarrow> \<exists>(k, v) \<in> set es. encodeURIComponent num v = Inl e"
proof (induction es arbitrary: acc)
  case Nil
  then show ?case by simp
next
  case (Cons kv es)
  obtain k v where kv: "kv = (k, v)" by (cases kv)
  show ?case
  proof (cases "encodeURIComponent num v")
    case (Inl e')
    with Cons.prems kv show ?thesis by simp
  next
    case (Inr r)
    with Cons.prems kv have "reduce_pathParam num es (replace (token k) r acc) = Inl e" by simp
    then have "\<exists>(k, v) \<in> set es. encodeURIComponent num v = Inl e" by (rule Cons.IH)
    then show ?thesis by auto
  qed
qed

lemma mkQParams_Inl:
  "mkQParams num q = Inl e \<Longrightarrow> e = TypeError \<and> (\<exists>(k, v) \<in> set q. \<not> printable v)"
proof -
  assume a: "mkQParams num q = Inl e"
  then have "collect (map (ToString num \<circ> snd) q) = Inl e"
    unfolding mkQParams_texts by (rule sum_case_Inl)
  then have "Inl e \<in> set (map (ToString num \<circ> snd) q)" by (rule collect_Inl)
  then obtain k v where "(k, v) \<in> set q" and "ToString num v = Inl e"
    by (auto simp: image_iff)
  then have "e = TypeError" by (simp add: ToString_Inl)
  moreover from a have "isl (mkQParams num q)" by simp
  then have "\<not> (\<forall>(k, v) \<in> set q. printable v)" using mkQParams_ok [of num q] by simp
  ultimately show ?thesis by auto
qed

lemma matcher_source_Inl:
  assumes "matcher_source num e d = Inl err"
  shows "(err = TypeError
          \<and> ((\<exists>(k, v) \<in> set (path_entries d). \<not> printable v)
              \<or> (\<exists>q. query d = Some q \<and> (\<exists>(k, v) \<in> set q. \<not> printable v))))
       \<or> (err = URIError
          \<and> (\<exists>(k, v) \<in> set (path_entries d). \<exists>s. ToString num v = Inr s \<and> \<not> well_formed s))"
proof (cases "pathString num d")
  case (Inl e')
  with assms have "pathString num d = Inl err" by (simp add: matcher_source_def)
  then obtain k v where kv: "(k, v) \<in> set (path_entries d)" and "encodeURIComponent num v = Inl err"
    unfolding pathString_def by (auto dest: reduce_pathParam_Inl)
  from encodeURIComponent_Inl [OF this(2)] kv show ?thesis by auto
next
  case (Inr ps)
  with assms obtain q where q: "query d = Some q" and "mkQParams num q = Inl err"
    by (cases "query d") (auto simp: matcher_source_def split: sum.splits)
  from mkQParams_Inl [OF this(2)] q show ?thesis by auto
qed

lemma MockApi_Inl:
  assumes "MockApi num pattern_ok e pg d = Inl err"
  shows "matcher_source num e d = Inl err
       \<or> (err = SyntaxError \<and> (\<exists>src. matcher_source num e d = Inr src \<and> \<not> pattern_ok src))"
  using assms
  by (cases "matcher_source num e d") (auto simp: MockApi_def new_RegExp_def split: if_splits)

section \<open>The claims\<close>

subsection \<open>Claim C1\<close>

text \<open>
  Claim C1, as stated, fails: with the status \<open>"default"\<close> (a key the schema types
  admit) the handler calls \<open>fulfill\<close> with no status, not with the descriptor's status,
  and the options hold the descriptor's path as well.
\<close>

theorem handler_drops_non_numeric_status:
  "MockApi uint32_toString accept_all localhost () default_status_mock =
     Inr (PageRoute () (RegExp ([caret] @ ascii ''http://localhost:3000'' @ [backslash, slash] @ ascii ''pets$''))
            (handler default_status_mock))
   \<and> handler default_status_mock (0::nat) =
       Fulfill 0 \<lparr> fulfill_path = ascii ''/pets'', fulfill_json = Some pet_list,
                   fulfill_status = None \<rparr>
   \<and> status default_status_mock = Some (JStr (ascii ''default''))"
proof (intro conjI)
  show "MockApi uint32_toString accept_all localhost () default_status_mock =
     Inr (PageRoute () (RegExp ([caret] @ ascii ''http://localhost:3000'' @ [backslash, slash] @ ascii ''pets$''))
            (handler default_status_mock))"
    by (rule MockApi_ok [OF source_default_status]) (simp add: accept_all_def)
  show "handler default_status_mock (0::nat) =
       Fulfill 0 \<lparr> fulfill_path = ascii ''/pets'', fulfill_json = Some pet_list,
                   fulfill_status = None \<rparr>"
    by (simp add: handler_def fulfill_args_def default_status_mock_def mock_def)
  show "status default_status_mock = Some (JStr (ascii ''default''))"
    by (simp add: default_status_mock_def mock_def)
qed

text \<open>
  Claim C1, amended: on every route it is invoked with, the handler registered by
  \<open>MockApi num\<close> calls \<open>fulfill\<close> with the descriptor's JSON body as it is (an array
  included), and with the descriptor's status when that is a number, with no status
  otherwise.
\<close>

theorem handler_fulfills_json_and_numeric_status:
  assumes "MockApi num ok e pg d = Inr (PageRoute p m h)"
  shows "\<exists>opts. h route = Fulfill route opts \<and> fulfill_json opts = json d
           \<and> fulfill_status opts = (case status d of Some (JNum n) \<Rightarrow> Some (JNum n) | _ \<Rightarrow> None)"
  using assms by (auto simp: MockApi_Inr handler_def fulfill_args_def)

theorem handler_fulfills_json_and_numeric_status_witness:
  "MockApi uint32_toString accept_all localhost () ok_status_mock =
     Inr (PageRoute () (RegExp ([caret] @ ascii ''http://localhost:3000'' @ [backslash, slash] @ ascii ''pets$''))
            (handler ok_status_mock))
   \<and> (\<exists>opts. handler ok_status_mock (0::nat) = Fulfill 0 opts
          \<and> fulfill_json opts = Some pet_list \<and> fulfill_status opts = Some (JNum 200))"
proof -
  have m: "MockApi uint32_toString accept_all localhost () ok_status_mock =
     Inr (PageRoute () (RegExp ([caret] @ ascii ''http://localhost:3000'' @ [backslash, slash] @ ascii ''pets$''))
            (handler ok_status_mock))"
    by (rule MockApi_ok [OF source_ok_status]) (simp add: accept_all_def)
  have j: "json ok_status_mock = Some pet_list"
    and s: "(case status ok_status_mock of Some (JNum n) \<Rightarrow> Some (JNum n) | _ \<Rightarrow> None) = Some (JNum 200)"
    by (simp_all add: ok_status_mock_def mock_def)
  have e: "\<exists>opts. handler ok_status_mock (0::nat) = Fulfill 0 opts
          \<and> fulfill_json opts = Some pet_list \<and> fulfill_status opts = Some (JNum 200)"
    using handler_fulfills_json_and_numeric_status [OF m, where route = "0::nat"]
    unfolding j s .
  show ?thesis by (intro conjI m e)
qed

subsection \<open>Claim C2\<close>




subsection \<open>Claim C3\<close>



subsection \<open>Claim C4\<close>



subsection \<open>Claim C5\<close>

text \<open>
  Claim C5: when the descriptor sets no status, the handler registered by \<open>MockApi num\<close>
  calls \<open>fulfill\<close> without a status, on every route it is invoked with.
\<close>

theorem unset_status_is_omitted:
  assumes "status d = None" and "MockApi num ok e pg d = Inr (PageRoute p m h)"
  shows "\<exists>opts. h route = Fulfill route opts \<and> fulfill_status opts = None"
  using assms by (auto simp: MockApi_Inr handler_def fulfill_args_def)

theorem unset_status_is_omitted_witness:
  "status (mock (ascii ''/pets'')) = None
   \<and> MockApi uint32_toString accept_all localhost () (mock (ascii ''/pets'')) =
       Inr (PageRoute () (RegExp ([caret] @ ascii ''http://localhost:3000'' @ [backslash, slash] @ ascii ''pets$''))
              (handler (mock (ascii ''/pets''))))
   \<and> (\<exists>opts. handler (mock (ascii ''/pets'')) (0::nat) = Fulfill 0 opts \<and> fulfill_status opts = None)"
proof -
  have s: "status (mock (ascii ''/pets'')) = None"
    by (simp add: mock_def)
  have m: "MockApi uint32_toString accept_all localhost () (mock (ascii ''/pets'')) =
       Inr (PageRoute () (RegExp ([caret] @ ascii ''http://localhost:3000'' @ [backslash, slash] @ ascii ''pets$''))
              (handler (mock (ascii ''/pets''))))"
    by (rule MockApi_ok [OF source_pets]) (simp add: accept_all_def)
  have e: "\<exists>opts. handler (mock (ascii ''/pets'')) (0::nat) = Fulfill 0 opts
      \<and> fulfill_status opts = None"
    by (rule unset_status_is_omitted [OF s m])
  show ?thesis by (intro conjI s m e)
qed

subsection \<open>Claim C6\<close>

text \<open>
  Claim C6, as stated, fails: the path \<open>/pets/{id}\<close> with \<open>id\<close> set to 1 and the path
  \<open>/pets/1\<close> are different paths, and both give the same matcher, which matches the
  URL of a request to \<open>/pets/1\<close>.
\<close>

theorem different_paths_cross_match:
  "path pet_by_id_mock \<noteq> path pet_one_mock
   \<and> query pet_by_id_mock = None \<and> query pet_one_mock = None
   \<and> matcher_source uint32_toString localhost pet_by_id_mock =
       Inr ([caret] @ ascii ''http://localhost:3000'' @ [backslash, slash] @ ascii ''pets''
            @ [backslash, slash] @ ascii ''1$'')
   \<and> matcher_source uint32_toString localhost pet_one_mock =
       Inr ([caret] @ ascii ''http://localhost:3000'' @ [backslash, slash] @ ascii ''pets''
            @ [backslash, slash] @ ascii ''1$'')
   \<and> regexp_test (RegExp ([caret] @ ascii ''http://localhost:3000'' @ [backslash, slash] @ ascii ''pets''
            @ [backslash, slash] @ ascii ''1$'')) (request_url localhost (path pet_one_mock)) = Some True"
proof -
  have n: "path pet_by_id_mock \<noteq> path pet_one_mock"
    by (simp add: pet_by_id_mock_def pet_one_mock_def mock_def ascii_def)
  have q: "query pet_by_id_mock = None" "query pet_one_mock = None"
    by (simp_all add: pet_by_id_mock_def pet_one_mock_def mock_def)
  show ?thesis by (intro conjI n q source_pet_by_id source_pet_one test_pet_one)
qed

text \<open>
  Claim C6, amended: take two descriptors without query, under the same base URL, and
  let \<open>p1\<close> and \<open>p2\<close> be their substituted paths: the paths whose slash-escaped
  forms are the path parts of the two matchers. When \<open>p1\<close> and \<open>p2\<close> differ and
  hold no regular-expression syntax character, and the base URL holds none but dots,
  each matcher matches the URL of a request to its own substituted path and does not
  match the URL of a request to the other one.
\<close>

theorem substituted_paths_do_not_cross_match:
  assumes "\<forall>c \<in> set (base_url e). \<not> syntax_char c \<or> c = dot"
    and "pathString num d1 = Inr (escape_slashes p1)"
    and "pathString num d2 = Inr (escape_slashes p2)"
    and "\<forall>c \<in> set p1. \<not> syntax_char c" and "\<forall>c \<in> set p2. \<not> syntax_char c"
    and "query d1 = None" and "query d2 = None"
    and "p1 \<noteq> p2"
  shows "\<exists>s1 s2. matcher_source num e d1 = Inr s1 \<and> matcher_source num e d2 = Inr s2
       \<and> regexp_test (RegExp s1) (request_url e p2) = Some False
       \<and> regexp_test (RegExp s2) (request_url e p1) = Some False
       \<and> regexp_test (RegExp s1) (request_url e p1) = Some True
       \<and> regexp_test (RegExp s2) (request_url e p2) = Some True"
proof -
  have s1: "matcher_source num e d1 = Inr ([caret] @ base_url e @ escape_slashes p1 @ [dollar])"
    using assms(2,6) by (simp add: matcher_source_def)
  have s2: "matcher_source num e d2 = Inr ([caret] @ base_url e @ escape_slashes p2 @ [dollar])"
    using assms(3,7) by (simp add: matcher_source_def)
  note t1 = regexp_test_plain [OF assms(1) assms(4)]
  note t2 = regexp_test_plain [OF assms(1) assms(5)]
  have "regexp_test (RegExp ([caret] @ base_url e @ escape_slashes p1 @ [dollar])) (request_url e p2) = Some False"
    and "regexp_test (RegExp ([caret] @ base_url e @ escape_slashes p2 @ [dollar])) (request_url e p1) = Some False"
    and "regexp_test (RegExp ([caret] @ base_url e @ escape_slashes p1 @ [dollar])) (request_url e p1) = Some True"
    and "regexp_test (RegExp ([caret] @ base_url e @ escape_slashes p2 @ [dollar])) (request_url e p2) = Some True"
    unfolding request_url_def t1 t2 using assms(8) by simp_all
  with s1 s2 show ?thesis by (intro exI conjI)
qed

theorem substituted_paths_do_not_cross_match_witness:
  "pathString uint32_toString pet_by_id_mock = Inr (escape_slashes (ascii ''/pets/1''))
   \<and> pathString uint32_toString users_mock = Inr (escape_slashes (ascii ''/users''))
   \<and> query pet_by_id_mock = None \<and> query users_mock = None
   \<and> regexp_test (RegExp ([caret] @ ascii ''https://api.example.com'' @ [backslash, slash] @ ascii ''pets''
          @ [backslash, slash] @ ascii ''1$'')) (request_url example_com (ascii ''/users'')) = Some False
   \<and> regexp_test (RegExp ([caret] @ ascii ''https://api.example.com'' @ [backslash, slash] @ ascii ''users$''))
        (request_url example_com (ascii ''/pets/1'')) = Some False
   \<and> regexp_test (RegExp ([caret] @ ascii ''https://api.example.com'' @ [backslash, slash] @ ascii ''pets''
          @ [backslash, slash] @ ascii ''1$'')) (request_url example_com (ascii ''/pets/1'')) = Some True
   \<and> regexp_test (RegExp ([caret] @ ascii ''https://api.example.com'' @ [backslash, slash] @ ascii ''users$''))
        (request_url example_com (ascii ''/users'')) = Some True"
proof -
  have a: "\<forall>c \<in> set (base_url example_com). \<not> syntax_char c \<or> c = dot"
    by (simp add: base_url_def example_com_def ascii_def syntax_char_def)
  have b: "\<forall>c \<in> set (ascii ''/pets/1''). \<not> syntax_char c"
    by (simp add: ascii_def syntax_char_def)
  have c: "\<forall>c \<in> set (ascii ''/users''). \<not> syntax_char c"
    by (simp add: ascii_def syntax_char_def)
  have q1: "query pet_by_id_mock = None" and q2: "query users_mock = None"
    by (simp_all add: pet_by_id_mock_def users_mock_def mock_def)
  have n: "ascii ''/pets/1'' \<noteq> ascii ''/users''"
    by (simp add: ascii_def)
  from substituted_paths_do_not_cross_match
    [OF a pathString_pet_by_id pathString_users b c q1 q2 n]
  obtain s1 s2 where s1: "matcher_source uint32_toString example_com pet_by_id_mock = Inr s1"
    and s2: "matcher_source uint32_toString example_com users_mock = Inr s2"
    and t: "regexp_test (RegExp s1) (request_url example_com (ascii ''/users'')) = Some False"
      "regexp_test (RegExp s2) (request_url example_com (ascii ''/pets/1'')) = Some False"
      "regexp_test (RegExp s1) (request_url example_com (ascii ''/pets/1'')) = Some True"
      "regexp_test (RegExp s2) (request_url example_com (ascii ''/users'')) = Some True"
    by (elim exE conjE)
  from s1 source_pet_by_id_example have e1: "s1 = [caret] @ ascii ''https://api.example.com''
      @ [backslash, slash] @ ascii ''pets'' @ [backslash, slash] @ ascii ''1$''"
    by (simp only: sum.inject)
  from s2 source_users_example have e2: "s2 = [caret] @ ascii ''https://api.example.com''
      @ [backslash, slash] @ ascii ''users$''"
    by (simp only: sum.inject)
  show ?thesis
    by (intro conjI pathString_pet_by_id pathString_users q1 q2 t [unfolded e1 e2])
qed

subsection \<open>Claim C7\<close>

text \<open>
  Claim C7, as stated, fails: \<open>MockApi\<close> raises the exceptions of the functions it
  calls. A path-parameter value holding an unpaired surrogate raises \<open>URIError\<close>, and a
  query value that is an object with an own property \<open>toString\<close> raises
  \<open>TypeError\<close>, even when the host accepts every pattern.
\<close>

theorem builtin_exceptions_are_raised:
  "(MockApi uint32_toString accept_all localhost () lone_surrogate_mock
      :: error + (uint32, unit, unit) route_call) = Inl URIError
   \<and> (MockApi uint32_toString accept_all localhost () own_toString_mock
      :: error + (uint32, unit, unit) route_call) = Inl TypeError"
  by (simp add: MockApi_def matcher_source_def pathString_def path_entries_def mkQParams_def
      lone_surrogate_mock_def own_toString_mock_def mock_def encodeURIComponent_def
      uriUnreserved_def is_trail_def is_lead_def escape_slashes_def)

text \<open>
  Claim C7, amended: \<open>MockApi\<close> has no check and no error handling of its own.
  Registration completes, with the call to \<open>page.route\<close>, exactly when every
  path-parameter value prints as a well-formed string, every query value prints, and
  the host accepts the pattern built; otherwise the exception of the function that
  failed is raised: \<open>TypeError\<close> only when a value does not print,
  \<open>URIError\<close> only when a path-parameter value prints as a string that is not
  well formed, \<open>SyntaxError\<close> only when the host refuses the pattern built.
  Placeholders left unmatched and a base URL that is not set raise nothing.
\<close>

theorem registration_completes:
  "((\<exists>call. MockApi num pattern_ok e pg d = Inr call) \<longleftrightarrow>
      (\<forall>(k, v) \<in> set (path_entries d).
          printable v \<and> (\<forall>s. ToString num v = Inr s \<longrightarrow> well_formed s))
    \<and> (\<forall>q. query d = Some q \<longrightarrow> (\<forall>(k, v) \<in> set q. printable v))
    \<and> (\<forall>src. matcher_source num e d = Inr src \<longrightarrow> pattern_ok src))
   \<and> (\<forall>call. MockApi num pattern_ok e pg d = Inr call \<longrightarrow>
        (\<exists>src. matcher_source num e d = Inr src \<and> call = PageRoute pg (RegExp src) (handler d)))
   \<and> (\<forall>err. MockApi num pattern_ok e pg d = Inl err \<longrightarrow>
        (err = TypeError
          \<and> ((\<exists>(k, v) \<in> set (path_entries d). \<not> printable v)
              \<or> (\<exists>q. query d = Some q \<and> (\<exists>(k, v) \<in> set q. \<not> printable v))))
        \<or> (err = URIError
          \<and> (\<exists>(k, v) \<in> set (path_entries d). \<exists>s. ToString num v = Inr s \<and> \<not> well_formed s))
        \<or> (err = SyntaxError
          \<and> (\<exists>src. matcher_source num e d = Inr src \<and> \<not> pattern_ok src)))"
proof -
  have call: "\<And>call. MockApi num pattern_ok e pg d = Inr call \<longleftrightarrow>
      (\<exists>src. matcher_source num e d = Inr src \<and> pattern_ok src
        \<and> call = PageRoute pg (RegExp src) (handler d))"
    by (cases "matcher_source num e d") (auto simp: MockApi_def new_RegExp_def)
  have "(\<exists>call. MockApi num pattern_ok e pg d = Inr call) \<longleftrightarrow>
      \<not> isl (matcher_source num e d) \<and> (\<forall>src. matcher_source num e d = Inr src \<longrightarrow> pattern_ok src)"
    unfolding call by (cases "matcher_source num e d") auto
  then have 1: "(\<exists>call. MockApi num pattern_ok e pg d = Inr call) \<longleftrightarrow>
      (\<forall>(k, v) \<in> set (path_entries d).
          printable v \<and> (\<forall>s. ToString num v = Inr s \<longrightarrow> well_formed s))
    \<and> (\<forall>q. query d = Some q \<longrightarrow> (\<forall>(k, v) \<in> set q. printable v))
    \<and> (\<forall>src. matcher_source num e d = Inr src \<longrightarrow> pattern_ok src)"
    unfolding matcher_source_ok by (simp only: conj_assoc)
  have 2: "\<forall>call. MockApi num pattern_ok e pg d = Inr call \<longrightarrow>
        (\<exists>src. matcher_source num e d = Inr src \<and> call = PageRoute pg (RegExp src) (handler d))"
    unfolding call by (intro allI impI) (elim exE conjE, intro exI conjI)
  have 3: "\<forall>err. MockApi num pattern_ok e pg d = Inl err \<longrightarrow>
        (err = TypeError
          \<and> ((\<exists>(k, v) \<in> set (path_entries d). \<not> printable v)
              \<or> (\<exists>q. query d = Some q \<and> (\<exists>(k, v) \<in> set q. \<not> printable v))))
        \<or> (err = URIError
          \<and> (\<exists>(k, v) \<in> set (path_entries d). \<exists>s. ToString num v = Inr s \<and> \<not> well_formed s))
        \<or> (err = SyntaxError
          \<and> (\<exists>src. matcher_source num e d = Inr src \<and> \<not> pattern_ok src))"
  proof (intro allI impI)
    fix err
    assume "MockApi num pattern_ok e pg d = Inl err"
    then have "matcher_source num e d = Inl err
       \<or> (err = SyntaxError \<and> (\<exists>src. matcher_source num e d = Inr src \<and> \<not> pattern_ok src))"
      by (rule MockApi_Inl)
    then show "(err = TypeError
          \<and> ((\<exists>(k, v) \<in> set (path_entries d). \<not> printable v)
              \<or> (\<exists>q. query d = Some q \<and> (\<exists>(k, v) \<in> set q. \<not> printable v))))
        \<or> (err = URIError
          \<and> (\<exists>(k, v) \<in> set (path_entries d). \<exists>s. ToString num v = Inr s \<and> \<not> well_formed s))
        \<or> (err = SyntaxError
          \<and> (\<exists>src. matcher_source num e d = Inr src \<and> \<not> pattern_ok src))"
    proof
      assume "matcher_source num e d = Inl err"
      from matcher_source_Inl [OF this] show ?thesis
        by (elim disjE) (rule disjI1, assumption, rule disjI2, rule disjI1, assumption)
    next
      assume "err = SyntaxError \<and> (\<exists>src. matcher_source num e d = Inr src \<and> \<not> pattern_ok src)"
      then show ?thesis by (intro disjI2)
    qed
  qed
  show ?thesis by (intro conjI 1 2 3)
qed

theorem registration_completes_witness:
  "(MockApi uint32_toString accept_all unset_env () unmatched_mock
      :: error + (uint32, unit, unit) route_call) =
       Inr (PageRoute () (RegExp ([caret] @ ascii ''undefined'' @ [backslash, slash] @ ascii ''pets''
              @ [backslash, slash] @ ascii ''{id}'' @ [backslash] @ ascii ''?a=1$''))
            (handler unmatched_mock))"
proof -
  have a: "\<forall>(k, v) \<in> set (path_entries unmatched_mock).
      printable v \<and> (\<forall>s. ToString uint32_toString v = Inr s \<longrightarrow> well_formed s)"
    by (simp add: path_entries_def unmatched_mock_def mock_def ascii_def is_lead_def is_trail_def)
  have b: "\<forall>q. query unmatched_mock = Some q \<longrightarrow> (\<forall>(k, v) \<in> set q. printable v)"
    by (simp add: unmatched_mock_def mock_def)
  have c: "\<forall>src. matcher_source uint32_toString unset_env unmatched_mock = Inr src \<longrightarrow> accept_all src"
    by (simp add: accept_all_def)
  note t = registration_completes
    [where num = uint32_toString and pattern_ok = accept_all and e = unset_env and pg = "()"
       and d = unmatched_mock]
  from t [THEN conjunct1, THEN iffD2, OF conjI [OF a conjI [OF b c]]]
  obtain call :: "(uint32, unit, unit) route_call"
    where m: "MockApi uint32_toString accept_all unset_env () unmatched_mock = Inr call" ..
  from t [THEN conjunct2, THEN conjunct1, rule_format, OF m] source_unset
  have "call = PageRoute () (RegExp ([caret] @ ascii ''undefined'' @ [backslash, slash] @ ascii ''pets''
              @ [backslash, slash] @ ascii ''{id}'' @ [backslash] @ ascii ''?a=1$''))
            (handler unmatched_mock)"
    by (elim exE conjE) (simp only: sum.inject)
  with m show ?thesis by simp
qed

subsection \<open>Claim C8\<close>

text \<open>
  Claim C8, as stated, fails: for a placeholder whose name holds a forward slash the two
  orders differ. Escaping first turns the token in the path into \<open>{a\/b}\<close>, which the
  token \<open>{a/b}\<close> no longer matches; substituting first replaces it.
\<close>

theorem escape_first_differs_on_slash_key:
  "pathString uint32_toString slash_key_mock = Inr ([backslash, slash] @ ascii ''x'' @ [backslash, slash]
      @ ascii ''{a'' @ [backslash, slash] @ ascii ''b}'')
   \<and> spec_pathString uint32_toString slash_key_mock = Inr ([backslash, slash] @ ascii ''x'' @ [backslash, slash]
      @ ascii ''1'')
   \<and> pathString uint32_toString slash_key_mock \<noteq> spec_pathString uint32_toString slash_key_mock"
  by code_simp

text \<open>
  Claim C8, amended: when no key of the path-parameter mapping holds a forward slash,
  escaping the slashes first and substituting then, as the code does, gives the same
  result (or the same exception) as substituting first and escaping then.
\<close>

theorem escape_then_substitute_agrees:
  assumes "\<forall>(k, v) \<in> set (path_entries d). slash \<notin> set k"
  shows "pathString num d = spec_pathString num d"
  unfolding pathString_def spec_pathString_def by (rule reduce_pathParam_escape [OF assms])

theorem escape_then_substitute_agrees_witness:
  "pathString uint32_toString space_id_mock =
       Inr ([backslash, slash] @ ascii ''pets'' @ [backslash, slash] @ ascii ''a%20b'')
   \<and> spec_pathString uint32_toString space_id_mock =
       Inr ([backslash, slash] @ ascii ''pets'' @ [backslash, slash] @ ascii ''a%20b'')"
proof -
  have a: "\<forall>(k, v) \<in> set (path_entries space_id_mock). slash \<notin> set k"
    by (simp add: path_entries_def space_id_mock_def mock_def ascii_def)
  have "spec_pathString uint32_toString space_id_mock =
       Inr ([backslash, slash] @ ascii ''pets'' @ [backslash, slash] @ ascii ''a%20b'')"
    using escape_then_substitute_agrees [OF a] pathString_space_id by simp
  with pathString_space_id show ?thesis by (intro conjI)
qed

subsection \<open>Claim C9\<close>

text \<open>
  Claim C9: two descriptors that differ only in the \<open>method\<close> field give the same
  outcome: the same matcher and a handler with the same fulfilment arguments. The
  handler never looks at the request, so requests of every HTTP method are served alike.
\<close>

theorem method_is_ignored:
  "MockApi num ok e pg (d\<lparr>method := m1\<rparr>) = MockApi num ok e pg (d\<lparr>method := m2\<rparr>)
   \<and> matcher_source num e (d\<lparr>method := m1\<rparr>) = matcher_source num e (d\<lparr>method := m2\<rparr>)
   \<and> handler (d\<lparr>method := m1\<rparr>) route = handler (d\<lparr>method := m2\<rparr>) route"
  by (simp add: MockApi_def cong: sum.case_cong)

subsection \<open>Claim C10\<close>

text \<open>
  Claim C10, as stated, fails: for the path \<open>/a|b\<close> with an empty query mapping the
  matcher ends with \<open>\?$\<close>, but the bar splits it into two alternatives, and the first
  one matches a URL that does not end with a question mark.
\<close>

theorem empty_query_matcher_with_alternatives:
  "query bar_path_mock = Some []
   \<and> matcher_source uint32_toString localhost bar_path_mock =
       Inr ([caret] @ ascii ''http://localhost:3000'' @ [backslash, slash] @ ascii ''a|b''
            @ [backslash, question, dollar])
   \<and> regexp_test (RegExp ([caret] @ ascii ''http://localhost:3000'' @ [backslash, slash] @ ascii ''a|b''
            @ [backslash, question, dollar])) (ascii ''http://localhost:3000/a'') = Some True
   \<and> last (ascii ''http://localhost:3000/a'') \<noteq> question"
proof -
  have q: "query bar_path_mock = Some []"
    by (simp add: bar_path_mock_def mock_def)
  have l: "last (ascii ''http://localhost:3000/a'') \<noteq> question"
    by (simp add: ascii_def)
  show ?thesis by (intro conjI q source_bar_path test_bar_path l)
qed

text \<open>
  Claim C10, amended: when the query mapping is supplied but empty, the text of the
  matcher ends with \<open>\?$\<close>, which is not the text of the matcher of the descriptor
  without query, ending with \<open>$\<close> right after the path. When the base URL and the
  path part are made of one-character atoms and assertions, with no alternative, the
  matcher answers on every URL, and a URL it matches ends with a question mark.
\<close>

theorem empty_query_suffix:
  assumes "pathString num d = Inr ps" and "query d = Some []"
  shows "matcher_source num e d = Inr ([caret] @ base_url e @ ps @ [backslash, question, dollar])
       \<and> matcher_source num e (d\<lparr>query := None\<rparr>) = Inr ([caret] @ base_url e @ ps @ [dollar])
       \<and> matcher_source num e d \<noteq> matcher_source num e (d\<lparr>query := None\<rparr>)
       \<and> (\<forall>ts u. lex_pattern (base_url e @ ps) = Some ts \<and> Bar \<notin> set ts \<longrightarrow>
            (\<exists>b. regexp_test (RegExp ([caret] @ base_url e @ ps @ [backslash, question, dollar])) u
                   = Some b
                 \<and> (b \<longrightarrow> u \<noteq> [] \<and> last u = question)))"
proof (intro conjI allI impI)
  show 1: "matcher_source num e d = Inr ([caret] @ base_url e @ ps @ [backslash, question, dollar])"
    using assms by (simp add: matcher_source_def mkQParams_def)
  show 2: "matcher_source num e (d\<lparr>query := None\<rparr>) = Inr ([caret] @ base_url e @ ps @ [dollar])"
    using assms by (simp add: matcher_source_def)
  show "matcher_source num e d \<noteq> matcher_source num e (d\<lparr>query := None\<rparr>)"
    unfolding 1 2 by simp
next
  fix ts u
  assume "lex_pattern (base_url e @ ps) = Some ts \<and> Bar \<notin> set ts"
  then have l: "lex_pattern (base_url e @ ps) = Some ts" and b: "Bar \<notin> set ts"
    by simp_all
  from empty_query_matches_question_only [OF l b, of u]
  show "\<exists>b. regexp_test (RegExp ([caret] @ base_url e @ ps @ [backslash, question, dollar])) u
                   = Some b
                 \<and> (b \<longrightarrow> u \<noteq> [] \<and> last u = question)"
    by (simp only: append_assoc)
qed

theorem empty_query_suffix_witness:
  "pathString uint32_toString empty_query_mock = Inr ([backslash, slash] @ ascii ''pets'' @ [backslash, slash] @ ascii ''{id}'')
   \<and> query empty_query_mock = Some []
   \<and> matcher_source uint32_toString localhost empty_query_mock =
       Inr ([caret] @ ascii ''http://localhost:3000'' @ [backslash, slash] @ ascii ''pets'' @ [backslash, slash] @ ascii ''{id}''
            @ [backslash, question, dollar])
   \<and> matcher_source uint32_toString localhost (empty_query_mock\<lparr>query := None\<rparr>) =
       Inr ([caret] @ ascii ''http://localhost:3000'' @ [backslash, slash] @ ascii ''pets'' @ [backslash, slash] @ ascii ''{id}'' @ [dollar])
   \<and> lex_pattern (base_url localhost @ [backslash, slash] @ ascii ''pets'' @ [backslash, slash] @ ascii ''{id}'') =
       Some (map Lit (ascii ''http://localhost:3000/pets/{id}''))
   \<and> regexp_test (RegExp ([caret] @ base_url localhost @ ([backslash, slash] @ ascii ''pets'' @ [backslash, slash] @ ascii ''{id}'')
        @ [backslash, question, dollar])) (ascii ''http://localhost:3000/pets/{id}?'') = Some True
   \<and> last (ascii ''http://localhost:3000/pets/{id}?'') = question"
proof -
  have q: "query empty_query_mock = Some []"
    by (simp add: empty_query_mock_def mock_def)
  have b: "base_url localhost = ascii ''http://localhost:3000''"
    by (simp add: base_url_def localhost_def)
  have nb: "Bar \<notin> set (map Lit (ascii ''http://localhost:3000/pets/{id}''))"
    by (rule lit_items_no_bar)
  note t = empty_query_suffix [OF pathString_empty_query_mock q, where e = localhost]
  from t have 1: "matcher_source uint32_toString localhost empty_query_mock =
       Inr ([caret] @ ascii ''http://localhost:3000'' @ [backslash, slash] @ ascii ''pets'' @ [backslash, slash] @ ascii ''{id}''
            @ [backslash, question, dollar])"
    unfolding b by simp
  from t have 2: "matcher_source uint32_toString localhost (empty_query_mock\<lparr>query := None\<rparr>) =
       Inr ([caret] @ ascii ''http://localhost:3000'' @ [backslash, slash] @ ascii ''pets'' @ [backslash, slash] @ ascii ''{id}'' @ [dollar])"
    unfolding b by simp
  note a = t [THEN conjunct2, THEN conjunct2, THEN conjunct2, rule_format,
      OF conjI [OF lex_empty_query_mock nb], of "ascii ''http://localhost:3000/pets/{id}?''"]
  from a test_empty_query_mock have 3: "last (ascii ''http://localhost:3000/pets/{id}?'') = question"
    by (elim exE conjE) (simp only: option.inject simp_thms)
  show ?thesis
    by (intro conjI pathString_empty_query_mock q 1 2 lex_empty_query_mock test_empty_query_mock 3)
qed

end
